theory Spec2Isabelle
  imports Complex_Main
begin

section \<open>Argument model and errors\<close>

text \<open>
  Modelled from the spec: the value of an argument is a variant (string, boolean or
  numeric); the declaration of the Go type is not among the sources. The type assertions
  \<^verbatim>\<open>arg.Value().(string)\<close> and \<^verbatim>\<open>arg.Value().(bool)\<close> of the collector succeed exactly on
  \<open>StringVal\<close> and \<open>BoolVal\<close>.
\<close>

datatype val = StringVal string | BoolVal bool | NumericVal int

text \<open>
  \<^verbatim>\<open>argDef{name, help, defaultValue}\<close> and \<^verbatim>\<open>arg{name, value}\<close>, as the struct literals of
  the heartbeat collector fill them. The interface methods \<^verbatim>\<open>Name()\<close> and \<^verbatim>\<open>Value()\<close> of
  an \<^verbatim>\<open>Arg\<close> read the two fields of \<open>arg\<close>.
\<close>

record argDef =
  argDef_name :: string
  argDef_help :: string
  defaultValue :: val

record arg =
  arg_name :: string
  arg_value :: val

text \<open>
  Go's \<^verbatim>\<open>error\<close> values. \<open>Errorf\<close> carries the formatted message of
  \<^verbatim>\<open>fmt.Errorf\<close>. The helpers \<^verbatim>\<open>wrongArgTypeError\<close> and \<^verbatim>\<open>unknownArgError\<close> are
  called by the collectors but declared elsewhere in the package; their results are kept
  as the call itself (the helper and the arguments handed to it). \<open>LibraryError\<close> is an
  error produced by \<^verbatim>\<open>database/sql\<close> or \<^verbatim>\<open>strconv\<close>, named by its message.
\<close>

datatype error =
    Errorf string
  | wrongArgTypeError string string val
  | unknownArgError string string
  | LibraryError string

text \<open>\<^verbatim>\<open>panic(fmt.Sprintf("bug: %v", err))\<close>: the panic keeps the error it reports.\<close>

datatype panic = Panic error

section \<open>The scraper registry\<close>

text \<open>
  \<^verbatim>\<open>type scraperEntry struct { enabled bool; flags map[string]*kingpin.FlagClause; scraper Scraper }\<close>

  \<open>'f\<close> stands for \<^verbatim>\<open>*kingpin.FlagClause\<close> and \<open>'s\<close> for a (non-nil) value of the
  \<^verbatim>\<open>Scraper\<close> interface, that is, for the registered instance itself.
\<close>

record ('f, 's) scraperEntry =
  enabled :: bool
  flags :: "string \<rightharpoonup> 'f"
  scraper :: 's

text \<open>
  \<^verbatim>\<open>scraperRegistry map[string]*scraperEntry\<close>. Every entry is allocated by
  \<open>registerScraper\<close> and reachable only through the map, so the map from names to entry
  values is the whole state; the package-level variable is passed in and handed back.
  The mutex \<^verbatim>\<open>registryMu\<close> serialises the calls and is not modelled.
\<close>

type_synonym ('f, 's) scraperRegistry = "string \<rightharpoonup> ('f, 's) scraperEntry"

definition IsScraperEnabled :: "('f, 's) scraperRegistry \<Rightarrow> string \<Rightarrow> bool" where
  "IsScraperEnabled reg name =
     (case reg name of
        None \<Rightarrow> False
      | Some se \<Rightarrow> enabled se)"

text \<open>
  Go leaves the order in which \<^verbatim>\<open>range\<close> visits a map unspecified, and it may differ from
  one loop to the next. A loop over the registry therefore takes the order of its visit as
  an argument: any list that names every key of the map once (\<open>rangeOrder\<close>).
\<close>

definition rangeOrder :: "('k \<rightharpoonup> 'e) \<Rightarrow> 'k list \<Rightarrow> bool" where
  "rangeOrder m ks = (distinct ks \<and> set ks = dom m)"

text \<open>
  The inner loop \<^verbatim>\<open>for name, flag := range s.flags { flags[name] = flag }\<close> writes every
  binding of \<open>s.flags\<close> into \<open>flags\<close>; its keys are distinct, so it is the map override
  \<open>++\<close> whatever its own order.
\<close>

definition AllScraperFlags :: "('f, 's) scraperRegistry \<Rightarrow> string list \<Rightarrow> (string \<rightharpoonup> 'f)" where
  "AllScraperFlags reg order =
     foldl (\<lambda>fs k. case reg k of None \<Rightarrow> fs | Some s \<Rightarrow> fs ++ flags s) Map.empty order"

definition LookupScraper :: "('f, 's) scraperRegistry \<Rightarrow> string \<Rightarrow> 's option \<times> bool" where
  "LookupScraper reg name =
     (case reg name of
        None \<Rightarrow> (None, False)
      | Some se \<Rightarrow> (Some (scraper se), True))"

definition SetScraperEnabled ::
  "('f, 's) scraperRegistry \<Rightarrow> string \<Rightarrow> bool \<Rightarrow> ('f, 's) scraperRegistry" where
  "SetScraperEnabled reg name b =
     (case reg name of
        None \<Rightarrow> reg
      | Some se \<Rightarrow> reg(name \<mapsto> se\<lparr>enabled := b\<rparr>))"

text \<open>
  \<open>registerScraper\<close> takes the interface method \<^verbatim>\<open>Name()\<close> and the helper
  \<^verbatim>\<open>makeFlagsFromScraper\<close> (declared elsewhere in the package) as parameters.
  It returns the error (\<open>None\<close> for \<^verbatim>\<open>nil\<close>) and the registry afterwards.
\<close>

definition registerScraper ::
  "('s \<Rightarrow> string) \<Rightarrow> ('s \<Rightarrow> bool \<Rightarrow> (string \<rightharpoonup> 'f)) \<Rightarrow>
   ('f, 's) scraperRegistry \<Rightarrow> 's \<Rightarrow> bool \<Rightarrow> error option \<times> ('f, 's) scraperRegistry" where
  "registerScraper Name makeFlagsFromScraper reg s b =
     (if reg (Name s) \<noteq> None
      then (Some (Errorf (''scraper with name '' @ Name s @ '' is already registered'')), reg)
      else (None, reg(Name s \<mapsto>
              \<lparr>enabled = b, flags = makeFlagsFromScraper s b, scraper = s\<rparr>)))"

text \<open>
  A run of calls of \<open>registerScraper\<close>, one after the other on the same registry, as the
  registration hooks make them: the error of every call, in order, and the registry at
  the end.
\<close>

fun registerScrapers ::
  "('s \<Rightarrow> string) \<Rightarrow> ('s \<Rightarrow> bool \<Rightarrow> (string \<rightharpoonup> 'f)) \<Rightarrow>
   ('f, 's) scraperRegistry \<Rightarrow> ('s \<times> bool) list \<Rightarrow> error option list \<times> ('f, 's) scraperRegistry" where
  "registerScrapers Name makeFlagsFromScraper reg [] = ([], reg)"
| "registerScrapers Name makeFlagsFromScraper reg ((s, b) # calls) =
     (case registerScraper Name makeFlagsFromScraper reg s b of
        (err, reg') \<Rightarrow>
          (case registerScrapers Name makeFlagsFromScraper reg' calls of
             (errs, reg'') \<Rightarrow> (err # errs, reg'')))"

text \<open>
  Modelled from the spec: the \<^verbatim>\<open>Configurable\<close> interface and \<^verbatim>\<open>defaultArgs\<close> are not
  among the sources. The spec gives a configurable scraper its declared, immutable ordered
  argument definitions (\<^verbatim>\<open>ArgDefinitions()\<close>) and \<^verbatim>\<open>Configure(args...)\<close>, which mutates the
  scraper's private state and returns an error; \<^verbatim>\<open>defaultArgs(defs)\<close> materializes one Arg
  per ArgDef using its default. \<open>'h\<close> is the program state that \<open>Configure\<close> mutates.
\<close>

record 'h Configurable =
  ArgDefinitions :: "argDef list"
  Configure :: "arg list \<Rightarrow> 'h \<Rightarrow> error option \<times> 'h"

definition defaultArgs :: "argDef list \<Rightarrow> arg list" where
  "defaultArgs defs = map (\<lambda>d. \<lparr>arg_name = argDef_name d, arg_value = defaultValue d\<rparr>) defs"

text \<open>
  \<open>asConfigurable\<close> is the type assertion \<^verbatim>\<open>s.(Configurable)\<close>: the methods of \<open>s\<close> when
  its dynamic type has them. The result is the panic, or the state and the registry after
  the call.
\<close>

definition mustRegisterScraperWithDefaults ::
  "('s \<Rightarrow> string) \<Rightarrow> ('s \<Rightarrow> bool \<Rightarrow> (string \<rightharpoonup> 'f)) \<Rightarrow> ('s \<Rightarrow> 'h Configurable option) \<Rightarrow>
   's \<Rightarrow> bool \<Rightarrow> 'h \<times> ('f, 's) scraperRegistry \<Rightarrow> panic + 'h \<times> ('f, 's) scraperRegistry" where
  "mustRegisterScraperWithDefaults Name makeFlagsFromScraper asConfigurable s b st =
     (case st of (h, reg) \<Rightarrow>
        (case (case asConfigurable s of
                 Some cfg \<Rightarrow>
                   (case Configure cfg (defaultArgs (ArgDefinitions cfg)) h of
                      (Some err, h') \<Rightarrow> Inl (Panic err)
                    | (None, h') \<Rightarrow> Inr h')
               | None \<Rightarrow> Inr h) of
           Inl p \<Rightarrow> Inl p
         | Inr h' \<Rightarrow>
             (case registerScraper Name makeFlagsFromScraper reg s b of
                (Some err, reg') \<Rightarrow> Inl (Panic err)
              | (None, reg') \<Rightarrow> Inr (h', reg'))))"

section \<open>The heartbeat collector\<close>

definition heartbeat :: string where
  "heartbeat = ''heartbeat''"

text \<open>
  \<^verbatim>\<open>heartbeatQuery\<close> with \<^verbatim>\<open>fmt.Sprintf\<close> applied to its three \<^verbatim>\<open>%s\<close> arguments.
\<close>

definition heartbeatQuery :: "string \<Rightarrow> string \<Rightarrow> string \<Rightarrow> string" where
  "heartbeatQuery a b c =
     ''SELECT UNIX_TIMESTAMP(ts), UNIX_TIMESTAMP('' @ a @ ''), server_id from `'' @ b @ ''`.`'' @ c @ ''`''"

definition heartbeatDatabase :: string where
  "heartbeatDatabase = ''database''"

definition heartbeatTable :: string where
  "heartbeatTable = ''table''"

definition heartbeatUtc :: string where
  "heartbeatUtc = ''utc''"

definition heartbeatArgDefs :: "argDef list" where
  "heartbeatArgDefs =
     [\<lparr>argDef_name = heartbeatDatabase,
       argDef_help = ''Database from where to collect heartbeat data'',
       defaultValue = StringVal ''heartbeat''\<rparr>,
      \<lparr>argDef_name = heartbeatTable,
       argDef_help = ''Database from where to collect heartbeat data'',
       defaultValue = StringVal ''heartbeat''\<rparr>,
      \<lparr>argDef_name = heartbeatUtc,
       argDef_help = ''Use UTC for timestamps of the current server (`pt-heartbeat` is called with `--utc`)'',
       defaultValue = BoolVal False\<rparr>]"

text \<open>
  The two package-level metric descriptors, by identity, with the label names
  \<^verbatim>\<open>[]string{"server_id"}\<close> each was built with.
\<close>

datatype Desc = HeartbeatStoredDesc | HeartbeatNowDesc

fun variableLabels :: "Desc \<Rightarrow> string list" where
  "variableLabels HeartbeatStoredDesc = [''server_id'']"
| "variableLabels HeartbeatNowDesc = [''server_id'']"

text \<open>
  \<^verbatim>\<open>struct ScrapeHeartbeat { sync.RWMutex; database string; enabled atomic.Bool; table string; utc bool }\<close>
  (the lock is not modelled; the field \<^verbatim>\<open>enabled\<close> is \<open>enabled_flag\<close> here, the name
  \<open>enabled\<close> being the registry entry's).
\<close>

record ScrapeHeartbeat =
  database :: string
  enabled_flag :: bool
  table :: string
  utc :: bool

definition ScrapeHeartbeat_Name :: string where
  "ScrapeHeartbeat_Name = ''heartbeat''"

definition ScrapeHeartbeat_Args :: "ScrapeHeartbeat \<Rightarrow> arg list" where
  "ScrapeHeartbeat_Args s =
     [\<lparr>arg_name = heartbeatDatabase, arg_value = StringVal (database s)\<rparr>,
      \<lparr>arg_name = heartbeatTable, arg_value = StringVal (table s)\<rparr>,
      \<lparr>arg_name = heartbeatUtc, arg_value = BoolVal (utc s)\<rparr>]"

text \<open>
  \<^verbatim>\<open>Configure\<close> mutates the receiver and returns an error: the model returns the error and
  the receiver as the call leaves it, also when it fails.
\<close>

fun ScrapeHeartbeat_Configure :: "ScrapeHeartbeat \<Rightarrow> arg list \<Rightarrow> error option \<times> ScrapeHeartbeat" where
  "ScrapeHeartbeat_Configure s [] = (None, s)"
| "ScrapeHeartbeat_Configure s (a # args) =
     (if arg_name a = heartbeatDatabase then
        (case arg_value a of
           StringVal v \<Rightarrow> ScrapeHeartbeat_Configure (s\<lparr>database := v\<rparr>) args
         | _ \<Rightarrow> (Some (wrongArgTypeError ScrapeHeartbeat_Name (arg_name a) (arg_value a)), s))
      else if arg_name a = heartbeatTable then
        (case arg_value a of
           StringVal v \<Rightarrow> ScrapeHeartbeat_Configure (s\<lparr>table := v\<rparr>) args
         | _ \<Rightarrow> (Some (wrongArgTypeError ScrapeHeartbeat_Name (arg_name a) (arg_value a)), s))
      else if arg_name a = heartbeatUtc then
        (case arg_value a of
           BoolVal v \<Rightarrow> ScrapeHeartbeat_Configure (s\<lparr>utc := v\<rparr>) args
         | _ \<Rightarrow> (Some (wrongArgTypeError ScrapeHeartbeat_Name (arg_name a) (arg_value a)), s))
      else (Some (unknownArgError ScrapeHeartbeat_Name (arg_name a)), s))"

definition nowExpr :: "bool \<Rightarrow> string" where
  "nowExpr u = (if u then ''UTC_TIMESTAMP(6)'' else ''NOW(6)'')"

text \<open>
  \<^verbatim>\<open>prometheus.ValueType\<close> and a constant metric as \<^verbatim>\<open>prometheus.MustNewConstMetric\<close>
  builds it: the descriptor, the kind, the value and the label values paired with the
  descriptor's label names. (The library panics when the number of label values is not
  the number of label names; both calls of the collector hand one value to a descriptor
  with one label name.) \<open>'v\<close> is \<^verbatim>\<open>float64\<close>.
\<close>

datatype ValueType = CounterValue | GaugeValue | UntypedValue

record 'v Metric =
  desc :: Desc
  valueType :: ValueType
  metric_value :: 'v
  labelPairs :: "(string \<times> string) list"

definition MustNewConstMetric :: "Desc \<Rightarrow> ValueType \<Rightarrow> 'v \<Rightarrow> string list \<Rightarrow> 'v Metric" where
  "MustNewConstMetric d vt v labelValues =
     \<lparr>desc = d, valueType = vt, metric_value = v, labelPairs = zip (variableLabels d) labelValues\<rparr>"

text \<open>
  \<^verbatim>\<open>strconv.Itoa\<close>: the decimal digits of an integer, with a minus sign when it is negative.
\<close>

fun natDigits :: "nat \<Rightarrow> string" where
  "natDigits n =
     (if n < 10 then [''0123456789'' ! n]
      else natDigits (n div 10) @ [''0123456789'' ! (n mod 10)])"

declare natDigits.simps [simp del]

definition Itoa :: "int \<Rightarrow> string" where
  "Itoa i = (if i < 0 then CHR ''-'' # natDigits (nat (- i)) else natDigits (nat i))"

text \<open>
  The rows of a query result, in the order \<^verbatim>\<open>heartbeatRows.Next()\<close> yields them. Each is
  what \<^verbatim>\<open>heartbeatRows.Scan(&ts, &now, &serverId)\<close> makes of it: the error, or the three
  scanned columns (stored timestamp, current timestamp, server id).
\<close>

type_synonym heartbeatRow = "string \<times> string \<times> int"

type_synonym Rows = "(error + heartbeatRow) list"

text \<open>
  The loop \<^verbatim>\<open>for heartbeatRows.Next() { ... }\<close> of \<open>Scrape\<close>. \<open>ParseFloat\<close> is
  \<^verbatim>\<open>strconv.ParseFloat\<close>, a parameter. The channel is the list of the metrics sent so far:
  \<^verbatim>\<open>ch <- m\<close> appends. The result is the returned error and the channel then.
\<close>

fun heartbeatRowsLoop ::
  "(string \<Rightarrow> nat \<Rightarrow> error + 'v) \<Rightarrow> Rows \<Rightarrow> 'v Metric list \<Rightarrow> error option \<times> 'v Metric list" where
  "heartbeatRowsLoop ParseFloat [] ch = (None, ch)"
| "heartbeatRowsLoop ParseFloat (row # rows) ch =
     (case row of
        Inl err \<Rightarrow> (Some err, ch)
      | Inr (ts, now, serverId) \<Rightarrow>
          (case ParseFloat ts 64 of
             Inl err \<Rightarrow> (Some err, ch)
           | Inr tsFloatVal \<Rightarrow>
               (case ParseFloat now 64 of
                  Inl err \<Rightarrow> (Some err, ch)
                | Inr nowFloatVal \<Rightarrow>
                    heartbeatRowsLoop ParseFloat rows
                      ((ch @ [MustNewConstMetric HeartbeatNowDesc GaugeValue nowFloatVal [Itoa serverId]])
                          @ [MustNewConstMetric HeartbeatStoredDesc GaugeValue tsFloatVal [Itoa serverId]]))))"

text \<open>
  \<open>Scrape\<close>: \<open>db\<close> is \<^verbatim>\<open>db.QueryContext(ctx, _)\<close>, from the query text to its error or rows.
\<close>

definition ScrapeHeartbeat_Scrape ::
  "(string \<Rightarrow> nat \<Rightarrow> error + 'v) \<Rightarrow> ScrapeHeartbeat \<Rightarrow> (string \<Rightarrow> error + Rows) \<Rightarrow>
   'v Metric list \<Rightarrow> error option \<times> 'v Metric list" where
  "ScrapeHeartbeat_Scrape ParseFloat s db ch =
     (case db (heartbeatQuery (nowExpr (utc s)) (database s) (table s)) of
        Inl err \<Rightarrow> (Some err, ch)
      | Inr heartbeatRows \<Rightarrow> heartbeatRowsLoop ParseFloat heartbeatRows ch)"

text \<open>
  Scrapers are registered as pointers (\<^verbatim>\<open>&ScrapeHeartbeat{}\<close>): an address into the store
  of the collectors' private state. \<open>Configure\<close> and \<open>Args\<close> through a pointer act on the
  struct at its address.
\<close>

type_synonym addr = nat

type_synonym heap = "addr \<Rightarrow> ScrapeHeartbeat"

text \<open>
  Modelled from the spec: \<^verbatim>\<open>ScrapeHeartbeat\<close> has no \<^verbatim>\<open>ArgDefinitions\<close> method among the
  sources. The spec has the heartbeat scraper declare three arguments (database, table,
  utc), which are \<open>heartbeatArgDefs\<close>; its \<open>Configure\<close> is the method of the source.
\<close>

definition ScrapeHeartbeat_Configurable :: "addr \<Rightarrow> heap Configurable option" where
  "ScrapeHeartbeat_Configurable p =
     Some \<lparr>ArgDefinitions = heartbeatArgDefs,
           Configure = (\<lambda>args h. case ScrapeHeartbeat_Configure (h p) args of
                                   (err, s') \<Rightarrow> (err, h(p := s')))\<rparr>"

section \<open>The rules of the spec, for comparison with the code\<close>

text \<open>
  The variant tag of a value, and the spec's rule for one argument of a scraper with the
  declarations \<open>defs\<close>: unknown-argument when its name is absent from them, wrong-type when
  the tag of the supplied value differs from the tag of the declared default, otherwise
  accepted.
\<close>

datatype kind = StringKind | BoolKind | NumericKind

fun kindOf :: "val \<Rightarrow> kind" where
  "kindOf (StringVal _) = StringKind"
| "kindOf (BoolVal _) = BoolKind"
| "kindOf (NumericVal _) = NumericKind"

definition argError_spec :: "string \<Rightarrow> argDef list \<Rightarrow> arg \<Rightarrow> error option" where
  "argError_spec scraperName defs a =
     (case find (\<lambda>d. argDef_name d = arg_name a) defs of
        None \<Rightarrow> Some (unknownArgError scraperName (arg_name a))
      | Some d \<Rightarrow>
          if kindOf (arg_value a) = kindOf (defaultValue d) then None
          else Some (wrongArgTypeError scraperName (arg_name a) (arg_value a)))"

text \<open>
  The metrics of one row as the spec gives them: the current-timestamp gauge, then the
  stored-timestamp gauge, when the row scans and both strings parse; none otherwise.
\<close>

definition rowParses :: "(string \<Rightarrow> nat \<Rightarrow> error + 'v) \<Rightarrow> error + heartbeatRow \<Rightarrow> bool" where
  "rowParses ParseFloat row =
     (case row of
        Inl err \<Rightarrow> False
      | Inr (ts, now, serverId) \<Rightarrow> \<not> isl (ParseFloat ts 64) \<and> \<not> isl (ParseFloat now 64))"

definition rowMetrics :: "(string \<Rightarrow> nat \<Rightarrow> error + 'v) \<Rightarrow> error + heartbeatRow \<Rightarrow> 'v Metric list" where
  "rowMetrics ParseFloat row =
     (case row of
        Inl err \<Rightarrow> []
      | Inr (ts, now, serverId) \<Rightarrow>
          (case (ParseFloat ts 64, ParseFloat now 64) of
             (Inr tsVal, Inr nowVal) \<Rightarrow>
               [\<lparr>desc = HeartbeatNowDesc, valueType = GaugeValue, metric_value = nowVal,
                 labelPairs = [(''server_id'', Itoa serverId)]\<rparr>,
                \<lparr>desc = HeartbeatStoredDesc, valueType = GaugeValue, metric_value = tsVal,
                 labelPairs = [(''server_id'', Itoa serverId)]\<rparr>]
           | _ \<Rightarrow> []))"

section \<open>Example inputs\<close>

text \<open>
  Scrapers that are identified by their names (\<^verbatim>\<open>Name()\<close> is the identity), with flag
  clauses identified by the scraper that made them. \<open>ownFlag\<close> gives every scraper one
  flag named after it, \<open>sharedFlag\<close> gives every scraper the same flag name.
  \<open>twoScrapers\<close> is the registry after registering \<open>first\<close> and then \<open>second\<close>, both
  with the shared flag name.
\<close>

definition ownFlag :: "string \<Rightarrow> bool \<Rightarrow> (string \<rightharpoonup> string)" where
  "ownFlag s b = [''collect.'' @ s \<mapsto> s]"

definition sharedFlag :: "string \<Rightarrow> bool \<Rightarrow> (string \<rightharpoonup> string)" where
  "sharedFlag s b = [''collect.shared'' \<mapsto> s]"

definition twoScrapers :: "(string, string) scraperRegistry" where
  "twoScrapers =
     snd (registerScrapers (\<lambda>s. s) sharedFlag Map.empty [(''first'', True), (''second'', True)])"

text \<open>
  A stand-in for \<^verbatim>\<open>strconv.ParseFloat\<close> on the strings of the example rows: \<open>100.5\<close> and
  \<open>200.75\<close> parse to their values (both are exact in \<^verbatim>\<open>float64\<close>), and a string that is not
  one of the two is refused with a syntax error, as \<open>not-a-number\<close> is.
\<close>

definition exampleParseFloat :: "string \<Rightarrow> nat \<Rightarrow> error + real" where
  "exampleParseFloat str bitSize =
     (if str = ''100.5'' then Inr 100.5
      else if str = ''200.75'' then Inr 200.75
      else Inl (LibraryError (''strconv.ParseFloat: parsing '' @ str @ '': invalid syntax'')))"

section \<open>Registry: enablement\<close>

text \<open>
  C10. For a name that is not in the registry, \<open>IsScraperEnabled\<close> returns false: the
  answer for an unknown scraper is the answer for a registered, disabled one.
\<close>

theorem IsScraperEnabled_unknown:
  "reg name = None \<Longrightarrow> IsScraperEnabled reg name = False"
  by (simp add: IsScraperEnabled_def)

theorem IsScraperEnabled_unknown_witness:
  "twoScrapers ''heartbeat'' = None \<and> IsScraperEnabled twoScrapers ''heartbeat'' = False"
proof -
  have h: "twoScrapers ''heartbeat'' = None"
    by (simp add: twoScrapers_def registerScraper_def)
  from h IsScraperEnabled_unknown [of twoScrapers "''heartbeat''", OF h] show ?thesis by simp
qed

text \<open>
  C3. For a registered name and a boolean \<open>b\<close>, \<open>SetScraperEnabled\<close> with \<open>b\<close> followed
  by \<open>IsScraperEnabled\<close> on the registry it leaves returns \<open>b\<close>.
\<close>

theorem SetScraperEnabled_IsScraperEnabled:
  "reg name = Some se \<Longrightarrow> IsScraperEnabled (SetScraperEnabled reg name b) name = b"
  by (simp add: IsScraperEnabled_def SetScraperEnabled_def)

theorem SetScraperEnabled_IsScraperEnabled_witness:
  "twoScrapers ''first'' = Some \<lparr>enabled = True, flags = sharedFlag ''first'' True, scraper = ''first''\<rparr>
   \<and> IsScraperEnabled (SetScraperEnabled twoScrapers ''first'' False) ''first'' = False
   \<and> IsScraperEnabled (SetScraperEnabled twoScrapers ''first'' True) ''first'' = True"
proof -
  have h: "twoScrapers ''first'' = Some \<lparr>enabled = True, flags = sharedFlag ''first'' True, scraper = ''first''\<rparr>"
    by (simp add: twoScrapers_def registerScraper_def)
  from h SetScraperEnabled_IsScraperEnabled [of twoScrapers "''first''", OF h, of False]
    SetScraperEnabled_IsScraperEnabled [of twoScrapers "''first''", OF h, of True]
  show ?thesis by simp
qed

text \<open>
  C4. For a name that is not in the registry, \<open>SetScraperEnabled\<close> changes nothing: the
  registry it leaves is the registry it was given, so no entry is created and every entry
  is as it was. (The function has no failing branch: the map read of a missing key yields
  \<open>ok = false\<close> and the write is skipped.)
\<close>

theorem SetScraperEnabled_unknown_noop:
  "reg name = None \<Longrightarrow> SetScraperEnabled reg name b = reg"
  by (simp add: SetScraperEnabled_def)

theorem SetScraperEnabled_unknown_noop_witness:
  "twoScrapers ''heartbeat'' = None
   \<and> SetScraperEnabled twoScrapers ''heartbeat'' True = twoScrapers
   \<and> SetScraperEnabled twoScrapers ''heartbeat'' True ''heartbeat'' = None"
proof -
  have h: "twoScrapers ''heartbeat'' = None"
    by (simp add: twoScrapers_def registerScraper_def)
  from h SetScraperEnabled_unknown_noop [of twoScrapers "''heartbeat''", OF h, of True] show ?thesis by simp
qed

section \<open>Registry: registration and lookup\<close>

text \<open>
  C1. When the name of \<open>s\<close> is already in the registry, \<open>registerScraper\<close> returns the
  duplicate-name error and the registry is what it was: the entry under that name keeps
  its enabled flag, its flag bindings and its scraper.
\<close>

theorem registerScraper_duplicate_name:
  "reg (Name s) = Some se \<Longrightarrow>
   registerScraper Name makeFlagsFromScraper reg s b =
     (Some (Errorf (''scraper with name '' @ Name s @ '' is already registered'')), reg)
   \<and> snd (registerScraper Name makeFlagsFromScraper reg s b) (Name s) = Some se"
  by (simp add: registerScraper_def)

theorem registerScraper_duplicate_name_witness:
  "twoScrapers ''first'' = Some \<lparr>enabled = True, flags = sharedFlag ''first'' True, scraper = ''first''\<rparr>
   \<and> registerScraper (\<lambda>s. s) ownFlag twoScrapers ''first'' False =
       (Some (Errorf ''scraper with name first is already registered''), twoScrapers)"
proof -
  have h: "twoScrapers ((\<lambda>s. s) ''first'') =
      Some \<lparr>enabled = True, flags = sharedFlag ''first'' True, scraper = ''first''\<rparr>"
    by (simp add: twoScrapers_def registerScraper_def)
  from h registerScraper_duplicate_name [of twoScrapers "\<lambda>s. s" "''first''", OF h, of ownFlag False]
  show ?thesis by simp
qed

subsection \<open>Runs of registrations\<close>

lemma registerScrapers_closed_form:
  "distinct (map (\<lambda>c. Name (fst c)) calls) \<Longrightarrow>
   (\<forall>c\<in>set calls. reg (Name (fst c)) = None) \<Longrightarrow>
   registerScrapers Name mk reg calls =
     (replicate (length calls) None,
      reg ++ map_of (map (\<lambda>c. (Name (fst c), \<lparr>enabled = snd c, flags = mk (fst c) (snd c), scraper = fst c\<rparr>)) calls))"
proof (induction calls arbitrary: reg)
  case Nil
  then show ?case by simp
next
  case (Cons c calls)
  obtain s b where c: "c = (s, b)" by (cases c)
  let ?e = "\<lparr>enabled = b, flags = mk s b, scraper = s\<rparr>"
  let ?kv = "\<lambda>c. (Name (fst c), \<lparr>enabled = snd c, flags = mk (fst c) (snd c), scraper = fst c\<rparr>)"
  from Cons.prems c have fresh: "reg (Name s) = None" by simp
  from Cons.prems c have notin: "Name s \<notin> (\<lambda>c. Name (fst c)) ` set calls" by simp
  have d: "distinct (map (\<lambda>c. Name (fst c)) calls)" using Cons.prems by simp
  have f: "\<forall>c\<in>set calls. (reg(Name s \<mapsto> ?e)) (Name (fst c)) = None"
  proof
    fix c' assume c': "c' \<in> set calls"
    with notin have "Name (fst c') \<noteq> Name s" by force
    with Cons.prems c' show "(reg(Name s \<mapsto> ?e)) (Name (fst c')) = None" by simp
  qed
  have nd: "Name s \<notin> dom (map_of (map ?kv calls))"
    using notin by (auto simp: dom_map_of_conv_image_fst image_image)
  have eq: "reg(Name s \<mapsto> ?e) ++ map_of (map ?kv calls) = reg ++ map_of (map ?kv (c # calls))"
    using nd c by (simp add: map_add_upd_left)
  have ih: "registerScrapers Name mk (reg(Name s \<mapsto> ?e)) calls =
      (replicate (length calls) None, reg(Name s \<mapsto> ?e) ++ map_of (map ?kv calls))"
    by (rule Cons.IH [OF d f])
  have rs: "registerScraper Name mk reg s b = (None, reg(Name s \<mapsto> ?e))"
    using fresh by (simp add: registerScraper_def)
  have "registerScrapers Name mk reg (c # calls) =
      (case registerScrapers Name mk (reg(Name s \<mapsto> ?e)) calls of
         (errs, r) \<Rightarrow> (None # errs, r))"
    unfolding c by (simp only: registerScrapers.simps rs prod.case)
  also have "\<dots> = (None # replicate (length calls) None, reg ++ map_of (map ?kv (c # calls)))"
    by (simp only: ih eq prod.case)
  finally show ?case by (simp only: length_Cons replicate_Suc)
qed

lemma registerScrapers_success_fresh:
  "fst (registerScrapers Name mk reg calls) = replicate (length calls) None \<Longrightarrow>
   c \<in> set calls \<Longrightarrow> reg (Name (fst c)) = None"
proof (induction calls arbitrary: reg)
  case Nil
  then show ?case by simp
next
  case (Cons c0 calls)
  obtain s b where c0: "c0 = (s, b)" by (cases c0)
  let ?e = "\<lparr>enabled = b, flags = mk s b, scraper = s\<rparr>"
  have fresh: "reg (Name s) = None"
  proof (rule ccontr)
    assume "reg (Name s) \<noteq> None"
    then have "fst (registerScraper Name mk reg s b) \<noteq> None"
      by (simp add: registerScraper_def)
    with Cons.prems(1) c0 show False
      by (simp split: prod.splits)
  qed
  then have rs: "registerScraper Name mk reg s b = (None, reg(Name s \<mapsto> ?e))"
    by (simp add: registerScraper_def)
  have rest: "fst (registerScrapers Name mk (reg(Name s \<mapsto> ?e)) calls) = replicate (length calls) None"
    using Cons.prems(1) c0 rs by (simp split: prod.splits)
  show ?case
  proof (cases "c = c0")
    case True
    with fresh c0 show ?thesis by simp
  next
    case False
    with Cons.prems(2) have "c \<in> set calls" by simp
    from Cons.IH [OF rest this] show ?thesis
      by (simp split: if_splits)
  qed
qed

text \<open>
  C2. A run of registrations of scrapers with pairwise distinct names succeeds in every
  call exactly when none of the names was registered before (always, from the empty
  registry). After a successful run the registry holds the names it held and one entry
  for each registered name, no more; the entry of each scraper has the enabled flag and
  the flags of its registration, and \<open>LookupScraper\<close> by its name returns that very
  scraper and \<open>true\<close>. Entries under other names are as they were.
\<close>

theorem registerScrapers_distinct_names:
  assumes run: "registerScrapers Name mk reg calls = (errs, reg')"
    and d: "distinct (map (\<lambda>c. Name (fst c)) calls)"
  shows "(errs = replicate (length calls) None \<longleftrightarrow> (\<forall>c\<in>set calls. reg (Name (fst c)) = None))
     \<and> (errs = replicate (length calls) None \<longrightarrow>
          dom reg' = dom reg \<union> (\<lambda>c. Name (fst c)) ` set calls
          \<and> (\<forall>c\<in>set calls.
                reg' (Name (fst c)) = Some \<lparr>enabled = snd c, flags = mk (fst c) (snd c), scraper = fst c\<rparr>
                \<and> LookupScraper reg' (Name (fst c)) = (Some (fst c), True))
          \<and> (\<forall>k. k \<notin> (\<lambda>c. Name (fst c)) ` set calls \<longrightarrow> reg' k = reg k)
          \<and> (finite (dom reg) \<longrightarrow> card (dom reg') = card (dom reg) + length calls))"
proof (intro conjI impI)
  show "errs = replicate (length calls) None \<longleftrightarrow> (\<forall>c\<in>set calls. reg (Name (fst c)) = None)"
  proof
    assume "errs = replicate (length calls) None"
    with run have "fst (registerScrapers Name mk reg calls) = replicate (length calls) None" by simp
    then show "\<forall>c\<in>set calls. reg (Name (fst c)) = None"
      by (blast intro: registerScrapers_success_fresh)
  next
    assume "\<forall>c\<in>set calls. reg (Name (fst c)) = None"
    from registerScrapers_closed_form [OF d this, of mk] run
    show "errs = replicate (length calls) None" by simp
  qed
next
  assume ok: "errs = replicate (length calls) None"
  with run have "fst (registerScrapers Name mk reg calls) = replicate (length calls) None" by simp
  then have fr: "\<forall>c\<in>set calls. reg (Name (fst c)) = None"
    by (blast intro: registerScrapers_success_fresh)
  let ?kv = "\<lambda>c. (Name (fst c), \<lparr>enabled = snd c, flags = mk (fst c) (snd c), scraper = fst c\<rparr>)"
  let ?names = "(\<lambda>c. Name (fst c)) ` set calls"
  have reg': "reg' = reg ++ map_of (map ?kv calls)"
    using registerScrapers_closed_form [OF d fr, of mk] run by simp
  have keys: "map fst (map ?kv calls) = map (\<lambda>c. Name (fst c)) calls"
    by simp
  have dom_new: "dom (map_of (map ?kv calls)) = ?names"
    by (simp add: dom_map_of_conv_image_fst image_image)
  show dom': "dom reg' = dom reg \<union> ?names"
    unfolding reg' using dom_new by auto
  have entry: "reg' (Name (fst c)) = Some \<lparr>enabled = snd c, flags = mk (fst c) (snd c), scraper = fst c\<rparr>"
    if "c \<in> set calls" for c
  proof -
    have "distinct (map fst (map ?kv calls))" using d by (simp only: keys)
    moreover have "?kv c \<in> set (map ?kv calls)" using that by simp
    ultimately have "map_of (map ?kv calls) (fst (?kv c)) = Some (snd (?kv c))"
      by (simp only: map_of_is_SomeI prod.collapse)
    then show ?thesis unfolding reg' by (simp add: map_add_Some_iff)
  qed
  show "\<forall>c\<in>set calls.
          reg' (Name (fst c)) = Some \<lparr>enabled = snd c, flags = mk (fst c) (snd c), scraper = fst c\<rparr>
          \<and> LookupScraper reg' (Name (fst c)) = (Some (fst c), True)"
    using entry by (simp add: LookupScraper_def)
  show "\<forall>k. k \<notin> ?names \<longrightarrow> reg' k = reg k"
  proof (intro allI impI)
    fix k assume "k \<notin> ?names"
    with dom_new have "map_of (map ?kv calls) k = None" by blast
    then show "reg' k = reg k" unfolding reg' by (simp add: map_add_def)
  qed
  show "card (dom reg') = card (dom reg) + length calls" if fin: "finite (dom reg)"
  proof -
    have disj: "dom reg \<inter> ?names = {}" using fr by auto
    have "?names = set (map (\<lambda>c. Name (fst c)) calls)" by simp
    moreover have "card (set (map (\<lambda>c. Name (fst c)) calls)) = length (map (\<lambda>c. Name (fst c)) calls)"
      using d by (rule distinct_card)
    ultimately have "card ?names = length calls" by simp
    then show ?thesis unfolding dom' using fin disj by (simp add: card_Un_disjoint)
  qed
qed

theorem registerScrapers_distinct_names_witness:
  "registerScrapers (\<lambda>s. s) ownFlag Map.empty [(''heartbeat'', True), (''binlog_size'', False)] =
     ([None, None],
      [''heartbeat'' \<mapsto> \<lparr>enabled = True, flags = ownFlag ''heartbeat'' True, scraper = ''heartbeat''\<rparr>,
       ''binlog_size'' \<mapsto> \<lparr>enabled = False, flags = ownFlag ''binlog_size'' False, scraper = ''binlog_size''\<rparr>])
   \<and> distinct (map (\<lambda>c. (\<lambda>s. s) (fst c)) [(''heartbeat'', True), (''binlog_size'', False)])
   \<and> LookupScraper
        [''heartbeat'' \<mapsto> \<lparr>enabled = True, flags = ownFlag ''heartbeat'' True, scraper = ''heartbeat''\<rparr>,
         ''binlog_size'' \<mapsto> \<lparr>enabled = False, flags = ownFlag ''binlog_size'' False, scraper = ''binlog_size''\<rparr>]
        ''binlog_size'' = (Some ''binlog_size'', True)
   \<and> card (dom
        [''heartbeat'' \<mapsto> \<lparr>enabled = True, flags = ownFlag ''heartbeat'' True, scraper = ''heartbeat''\<rparr>,
         ''binlog_size'' \<mapsto> \<lparr>enabled = False, flags = ownFlag ''binlog_size'' False, scraper = ''binlog_size''\<rparr>]) = 2"
proof -
  let ?calls = "[(''heartbeat'', True), (''binlog_size'', False)]"
  let ?reg' = "[''heartbeat'' \<mapsto> \<lparr>enabled = True, flags = ownFlag ''heartbeat'' True, scraper = ''heartbeat''\<rparr>,
       ''binlog_size'' \<mapsto> \<lparr>enabled = False, flags = ownFlag ''binlog_size'' False, scraper = ''binlog_size''\<rparr>]"
  have run: "registerScrapers (\<lambda>s. s) ownFlag Map.empty ?calls = ([None, None], ?reg')"
    by (simp add: registerScraper_def)
  have d: "distinct (map (\<lambda>c. (\<lambda>s. s) (fst c)) ?calls)"
    by simp
  from run d registerScrapers_distinct_names [OF run d]
  show ?thesis by simp
qed

section \<open>Registry: the union of the flag bindings\<close>

lemma foldl_flags_dom:
  "dom (foldl (\<lambda>fs k. case reg k of None \<Rightarrow> fs | Some s \<Rightarrow> fs ++ flags s) fs0 ks) =
     dom fs0 \<union> (\<Union>k\<in>set ks. case reg k of None \<Rightarrow> {} | Some s \<Rightarrow> dom (flags s))"
  by (induction ks arbitrary: fs0) (auto split: option.splits)

lemma foldl_flags_unbound:
  "(\<forall>k\<in>set ks. \<forall>s. reg k = Some s \<longrightarrow> flags s f = None) \<Longrightarrow>
   foldl (\<lambda>fs k. case reg k of None \<Rightarrow> fs | Some s \<Rightarrow> fs ++ flags s) fs0 ks f = fs0 f"
  by (induction ks arbitrary: fs0) (auto split: option.splits simp: map_add_def)

lemma AllScraperFlags_last_binder:
  assumes "order = ks1 @ k # ks2" and "reg k = Some se" and "flags se f = Some v"
    and "\<forall>k'\<in>set ks2. \<forall>s. reg k' = Some s \<longrightarrow> flags s f = None"
  shows "AllScraperFlags reg order f = Some v"
  using assms by (simp add: AllScraperFlags_def foldl_flags_unbound)

lemma AllScraperFlags_dom:
  assumes "rangeOrder reg order"
  shows "dom (AllScraperFlags reg order) = (\<Union>se\<in>ran reg. dom (flags se))"
proof -
  have "(\<Union>k\<in>dom reg. case reg k of None \<Rightarrow> {} | Some s \<Rightarrow> dom (flags s)) = (\<Union>se\<in>ran reg. dom (flags se))"
  proof (intro set_eqI iffI)
    fix f assume "f \<in> (\<Union>k\<in>dom reg. case reg k of None \<Rightarrow> {} | Some s \<Rightarrow> dom (flags s))"
    then obtain k se where "reg k = Some se" "f \<in> dom (flags se)"
      by (auto split: option.splits)
    then show "f \<in> (\<Union>se\<in>ran reg. dom (flags se))"
      by (auto simp: ran_def)
  next
    fix f assume "f \<in> (\<Union>se\<in>ran reg. dom (flags se))"
    then obtain k se where k: "reg k = Some se" and f: "f \<in> dom (flags se)"
      by (auto simp: ran_def)
    from k have "k \<in> dom reg" by auto
    moreover from k f have "f \<in> (case reg k of None \<Rightarrow> {} | Some s \<Rightarrow> dom (flags s))" by simp
    ultimately show "f \<in> (\<Union>k\<in>dom reg. case reg k of None \<Rightarrow> {} | Some s \<Rightarrow> dom (flags s))"
      by blast
  qed
  with assms show ?thesis
    by (simp add: AllScraperFlags_def foldl_flags_dom rangeOrder_def)
qed

lemma AllScraperFlags_single_binder:
  assumes ro: "rangeOrder reg order" and "reg k = Some se" and "flags se f = Some v"
    and uniq: "\<forall>k' s. reg k' = Some s \<and> k' \<noteq> k \<longrightarrow> flags s f = None"
  shows "AllScraperFlags reg order f = Some v"
proof -
  from ro assms(2) have "k \<in> set order" by (auto simp: rangeOrder_def)
  then obtain ks1 ks2 where sp: "order = ks1 @ k # ks2" by (auto simp: in_set_conv_decomp)
  with ro have "k \<notin> set ks2" by (auto simp: rangeOrder_def)
  with uniq have "\<forall>k'\<in>set ks2. \<forall>s. reg k' = Some s \<longrightarrow> flags s f = None" by metis
  with sp assms(2,3) show ?thesis by (rule AllScraperFlags_last_binder)
qed

text \<open>
  C6, as the claim states it, fails. With \<open>first\<close> registered before \<open>second\<close>, both
  binding the flag name \<open>collect.shared\<close>, the loop of \<open>AllScraperFlags\<close> may visit
  \<open>second\<close> before \<open>first\<close>; the mapping it returns then holds the binding of \<open>first\<close>,
  the scraper registered earlier, and not the binding of \<open>second\<close>.
\<close>

theorem AllScraperFlags_later_registered_counterexample:
  "registerScrapers (\<lambda>s. s) sharedFlag Map.empty [(''first'', True), (''second'', True)] =
     ([None, None], twoScrapers)
   \<and> twoScrapers ''second'' =
       Some \<lparr>enabled = True, flags = [''collect.shared'' \<mapsto> ''second''], scraper = ''second''\<rparr>
   \<and> rangeOrder twoScrapers [''second'', ''first'']
   \<and> AllScraperFlags twoScrapers [''second'', ''first''] ''collect.shared'' = Some ''first''
   \<and> AllScraperFlags twoScrapers [''second'', ''first''] ''collect.shared'' \<noteq> Some ''second''"
proof -
  have ro: "rangeOrder twoScrapers [''second'', ''first'']"
    by (simp add: twoScrapers_def registerScraper_def rangeOrder_def doubleton_eq_iff)
  have rest: "registerScrapers (\<lambda>s. s) sharedFlag Map.empty [(''first'', True), (''second'', True)] =
       ([None, None], twoScrapers)
     \<and> twoScrapers ''second'' =
         Some \<lparr>enabled = True, flags = [''collect.shared'' \<mapsto> ''second''], scraper = ''second''\<rparr>
     \<and> AllScraperFlags twoScrapers [''second'', ''first''] ''collect.shared'' = Some ''first''"
    by (simp add: twoScrapers_def registerScraper_def sharedFlag_def AllScraperFlags_def)
  from ro rest show ?thesis by simp
qed

text \<open>
  C6, amended. For every order in which the loop may visit the registry, the mapping
  \<open>AllScraperFlags\<close> returns has exactly the flag names that some registered entry binds
  (the union of the entries' flag bindings). A flag name bound by several entries maps to
  the binding of the entry visited last among them; which one that is follows the map's
  iteration order, not the order of registration. A flag name bound by one entry only
  maps to that entry's binding, whatever the order.
\<close>

theorem AllScraperFlags_union_last_visited:
  assumes "rangeOrder reg order"
  shows "dom (AllScraperFlags reg order) = (\<Union>se\<in>ran reg. dom (flags se))
     \<and> (\<forall>ks1 k ks2 se f v.
           order = ks1 @ k # ks2 \<and> reg k = Some se \<and> flags se f = Some v
           \<and> (\<forall>k'\<in>set ks2. \<forall>s. reg k' = Some s \<longrightarrow> flags s f = None)
           \<longrightarrow> AllScraperFlags reg order f = Some v)
     \<and> (\<forall>k se f v.
           reg k = Some se \<and> flags se f = Some v
           \<and> (\<forall>k' s. reg k' = Some s \<and> k' \<noteq> k \<longrightarrow> flags s f = None)
           \<longrightarrow> AllScraperFlags reg order f = Some v)"
proof (intro conjI allI impI)
  show "dom (AllScraperFlags reg order) = (\<Union>se\<in>ran reg. dom (flags se))"
    using assms by (rule AllScraperFlags_dom)
next
  fix ks1 k ks2 se f v
  assume "order = ks1 @ k # ks2 \<and> reg k = Some se \<and> flags se f = Some v
           \<and> (\<forall>k'\<in>set ks2. \<forall>s. reg k' = Some s \<longrightarrow> flags s f = None)"
  then show "AllScraperFlags reg order f = Some v"
    by (blast intro: AllScraperFlags_last_binder)
next
  fix k se f v
  assume "reg k = Some se \<and> flags se f = Some v
           \<and> (\<forall>k' s. reg k' = Some s \<and> k' \<noteq> k \<longrightarrow> flags s f = None)"
  with assms show "AllScraperFlags reg order f = Some v"
    by (blast intro: AllScraperFlags_single_binder)
qed

theorem AllScraperFlags_union_last_visited_witness:
  "rangeOrder twoScrapers [''first'', ''second'']
   \<and> dom (AllScraperFlags twoScrapers [''first'', ''second'']) = {''collect.shared''}
   \<and> AllScraperFlags twoScrapers [''first'', ''second''] ''collect.shared'' = Some ''second''"
proof -
  let ?e1 = "\<lparr>enabled = True, flags = [''collect.shared'' \<mapsto> ''first''], scraper = ''first''\<rparr>"
  let ?e2 = "\<lparr>enabled = True, flags = [''collect.shared'' \<mapsto> ''second''], scraper = ''second''\<rparr>"
  have two: "twoScrapers = [''first'' \<mapsto> ?e1, ''second'' \<mapsto> ?e2]"
    by (simp add: twoScrapers_def registerScraper_def sharedFlag_def)
  have ro: "rangeOrder twoScrapers [''first'', ''second'']"
    by (simp add: two rangeOrder_def doubleton_eq_iff)
  have second: "twoScrapers ''second'' = Some ?e2"
    by (simp add: two)
  have rn: "ran twoScrapers = {?e2, ?e1}"
    unfolding two by (simp add: ran_map_upd)
  note th = AllScraperFlags_union_last_visited [OF ro]
  from th [THEN conjunct1]
  have "dom (AllScraperFlags twoScrapers [''first'', ''second'']) = {''collect.shared''}"
    by (simp add: rn)
  moreover
  have "AllScraperFlags twoScrapers [''first'', ''second''] ''collect.shared'' = Some ''second''"
    by (rule th [THEN conjunct2, THEN conjunct1, rule_format,
          of "[''first'']" "''second''" "[]" ?e2 "''collect.shared''" "''second''"])
       (simp add: second)
  ultimately show ?thesis using ro by simp
qed

section \<open>Heartbeat: Configure\<close>

lemma argError_spec_heartbeat:
  "argError_spec ScrapeHeartbeat_Name heartbeatArgDefs a =
     (if arg_name a = ''database'' \<or> arg_name a = ''table'' then
        (case arg_value a of
           StringVal v \<Rightarrow> None
         | _ \<Rightarrow> Some (wrongArgTypeError ''heartbeat'' (arg_name a) (arg_value a)))
      else if arg_name a = ''utc'' then
        (case arg_value a of
           BoolVal v \<Rightarrow> None
         | _ \<Rightarrow> Some (wrongArgTypeError ''heartbeat'' (arg_name a) (arg_value a)))
      else Some (unknownArgError ''heartbeat'' (arg_name a)))"
  by (cases "arg_value a")
     (simp_all add: argError_spec_def heartbeatArgDefs_def heartbeatDatabase_def
        heartbeatTable_def heartbeatUtc_def ScrapeHeartbeat_Name_def)

lemma ScrapeHeartbeat_Configure_accepted:
  "argError_spec ScrapeHeartbeat_Name heartbeatArgDefs a = None \<Longrightarrow>
   ScrapeHeartbeat_Configure s (a # args) =
     ScrapeHeartbeat_Configure (snd (ScrapeHeartbeat_Configure s [a])) args"
  by (cases "arg_value a")
     (auto simp: argError_spec_heartbeat heartbeatDatabase_def heartbeatTable_def
        heartbeatUtc_def split: if_splits)

lemma ScrapeHeartbeat_Configure_rejected:
  "argError_spec ScrapeHeartbeat_Name heartbeatArgDefs a = Some err \<Longrightarrow>
   ScrapeHeartbeat_Configure s (a # args) = (Some err, s)"
  unfolding argError_spec_heartbeat
  by (cases "arg_value a")
     (auto simp: heartbeatDatabase_def heartbeatTable_def
        heartbeatUtc_def ScrapeHeartbeat_Name_def split: if_splits)

lemma ScrapeHeartbeat_Configure_prefix:
  "\<forall>a\<in>set pre. argError_spec ScrapeHeartbeat_Name heartbeatArgDefs a = None \<Longrightarrow>
   ScrapeHeartbeat_Configure s (pre @ rest) =
     ScrapeHeartbeat_Configure (foldl (\<lambda>st a. snd (ScrapeHeartbeat_Configure st [a])) s pre) rest"
proof (induction pre arbitrary: s)
  case Nil
  then show ?case by simp
next
  case (Cons a pre)
  from Cons.prems have a: "argError_spec ScrapeHeartbeat_Name heartbeatArgDefs a = None"
    and pre: "\<forall>a\<in>set pre. argError_spec ScrapeHeartbeat_Name heartbeatArgDefs a = None"
    by simp_all
  have "ScrapeHeartbeat_Configure s ((a # pre) @ rest) =
      ScrapeHeartbeat_Configure (snd (ScrapeHeartbeat_Configure s [a])) (pre @ rest)"
    using ScrapeHeartbeat_Configure_accepted [OF a, of s "pre @ rest"] by simp
  also have "\<dots> = ScrapeHeartbeat_Configure
      (foldl (\<lambda>st a. snd (ScrapeHeartbeat_Configure st [a])) (snd (ScrapeHeartbeat_Configure s [a])) pre) rest"
    by (rule Cons.IH [OF pre])
  finally show ?case by (simp del: ScrapeHeartbeat_Configure.simps)
qed

lemma ScrapeHeartbeat_Configure_Args:
  "argError_spec ScrapeHeartbeat_Name heartbeatArgDefs a = None \<Longrightarrow>
   ScrapeHeartbeat_Args (snd (ScrapeHeartbeat_Configure s [a])) =
     map (\<lambda>x. if arg_name x = arg_name a then a else x) (ScrapeHeartbeat_Args s)"
  by (cases "arg_value a")
     (auto simp: argError_spec_heartbeat heartbeatDatabase_def heartbeatTable_def
        heartbeatUtc_def ScrapeHeartbeat_Args_def split: if_splits)

text \<open>
  C5. \<open>Configure\<close> of the heartbeat scraper takes its arguments in the order of the
  sequence. An argument fails by the spec's rule over \<open>heartbeatArgDefs\<close>: its name is
  not declared (unknown-argument) or the tag of its value is not the tag of the declared
  default (wrong-type). When no argument fails, the call returns no error and the state is
  the one reached by applying the arguments one by one, in order. At the first one that
  fails the call returns that argument's error, which carries the scraper name
  \<open>heartbeat\<close> and the argument's name; the state is the one reached by the arguments
  before it (they stay applied) and does not depend on the arguments after it. Applying
  one accepted argument makes \<open>Args\<close> report it under its name and leaves the other
  arguments as they were.
\<close>

theorem ScrapeHeartbeat_Configure_first_failure:
  "((\<forall>a\<in>set args. argError_spec ScrapeHeartbeat_Name heartbeatArgDefs a = None) \<longrightarrow>
      ScrapeHeartbeat_Configure s args =
        (None, foldl (\<lambda>st a. snd (ScrapeHeartbeat_Configure st [a])) s args))
   \<and> ((\<forall>a\<in>set pre. argError_spec ScrapeHeartbeat_Name heartbeatArgDefs a = None)
        \<and> argError_spec ScrapeHeartbeat_Name heartbeatArgDefs bad = Some err \<longrightarrow>
      ScrapeHeartbeat_Configure s (pre @ bad # post) =
        (Some err, foldl (\<lambda>st a. snd (ScrapeHeartbeat_Configure st [a])) s pre)
      \<and> (err = unknownArgError ''heartbeat'' (arg_name bad)
           \<and> arg_name bad \<notin> set (map argDef_name heartbeatArgDefs)
         \<or> err = wrongArgTypeError ''heartbeat'' (arg_name bad) (arg_value bad)
           \<and> arg_name bad \<in> set (map argDef_name heartbeatArgDefs)))
   \<and> (argError_spec ScrapeHeartbeat_Name heartbeatArgDefs a = None \<longrightarrow>
        ScrapeHeartbeat_Args (snd (ScrapeHeartbeat_Configure s [a])) =
          map (\<lambda>x. if arg_name x = arg_name a then a else x) (ScrapeHeartbeat_Args s))"
proof (intro conjI impI)
  assume "\<forall>a\<in>set args. argError_spec ScrapeHeartbeat_Name heartbeatArgDefs a = None"
  from ScrapeHeartbeat_Configure_prefix [OF this, of s "[]"]
  show "ScrapeHeartbeat_Configure s args =
      (None, foldl (\<lambda>st a. snd (ScrapeHeartbeat_Configure st [a])) s args)"
    by simp
next
  assume h: "(\<forall>a\<in>set pre. argError_spec ScrapeHeartbeat_Name heartbeatArgDefs a = None)
        \<and> argError_spec ScrapeHeartbeat_Name heartbeatArgDefs bad = Some err"
  then have "ScrapeHeartbeat_Configure s (pre @ bad # post) =
      ScrapeHeartbeat_Configure (foldl (\<lambda>st a. snd (ScrapeHeartbeat_Configure st [a])) s pre) (bad # post)"
    by (intro ScrapeHeartbeat_Configure_prefix) simp
  also have "\<dots> = (Some err, foldl (\<lambda>st a. snd (ScrapeHeartbeat_Configure st [a])) s pre)"
    using h by (intro ScrapeHeartbeat_Configure_rejected) simp
  finally show "ScrapeHeartbeat_Configure s (pre @ bad # post) =
      (Some err, foldl (\<lambda>st a. snd (ScrapeHeartbeat_Configure st [a])) s pre)" .
  from h have "argError_spec ScrapeHeartbeat_Name heartbeatArgDefs bad = Some err" by simp
  then have "(if arg_name bad = ''database'' \<or> arg_name bad = ''table'' then
        (case arg_value bad of
           StringVal v \<Rightarrow> None
         | _ \<Rightarrow> Some (wrongArgTypeError ''heartbeat'' (arg_name bad) (arg_value bad)))
      else if arg_name bad = ''utc'' then
        (case arg_value bad of
           BoolVal v \<Rightarrow> None
         | _ \<Rightarrow> Some (wrongArgTypeError ''heartbeat'' (arg_name bad) (arg_value bad)))
      else Some (unknownArgError ''heartbeat'' (arg_name bad))) = Some err"
    by (simp only: argError_spec_heartbeat)
  then show "err = unknownArgError ''heartbeat'' (arg_name bad)
           \<and> arg_name bad \<notin> set (map argDef_name heartbeatArgDefs)
         \<or> err = wrongArgTypeError ''heartbeat'' (arg_name bad) (arg_value bad)
           \<and> arg_name bad \<in> set (map argDef_name heartbeatArgDefs)"
    by (cases "arg_value bad")
       (auto simp: heartbeatArgDefs_def heartbeatDatabase_def
          heartbeatTable_def heartbeatUtc_def split: if_splits)
next
  assume "argError_spec ScrapeHeartbeat_Name heartbeatArgDefs a = None"
  then show "ScrapeHeartbeat_Args (snd (ScrapeHeartbeat_Configure s [a])) =
          map (\<lambda>x. if arg_name x = arg_name a then a else x) (ScrapeHeartbeat_Args s)"
    by (rule ScrapeHeartbeat_Configure_Args)
qed

theorem ScrapeHeartbeat_Configure_first_failure_witness:
  "argError_spec ScrapeHeartbeat_Name heartbeatArgDefs
      \<lparr>arg_name = ''database'', arg_value = StringVal ''db1''\<rparr> = None
   \<and> argError_spec ScrapeHeartbeat_Name heartbeatArgDefs
      \<lparr>arg_name = ''utc'', arg_value = StringVal ''yes''\<rparr> =
        Some (wrongArgTypeError ''heartbeat'' ''utc'' (StringVal ''yes''))
   \<and> ScrapeHeartbeat_Configure
        \<lparr>database = [], enabled_flag = False, table = [], utc = False\<rparr>
        [\<lparr>arg_name = ''database'', arg_value = StringVal ''db1''\<rparr>,
         \<lparr>arg_name = ''utc'', arg_value = StringVal ''yes''\<rparr>,
         \<lparr>arg_name = ''table'', arg_value = StringVal ''t1''\<rparr>] =
       (Some (wrongArgTypeError ''heartbeat'' ''utc'' (StringVal ''yes'')),
        \<lparr>database = ''db1'', enabled_flag = False, table = [], utc = False\<rparr>)
   \<and> ScrapeHeartbeat_Configure
        \<lparr>database = [], enabled_flag = False, table = [], utc = False\<rparr>
        [\<lparr>arg_name = ''database'', arg_value = StringVal ''db1''\<rparr>] =
       (None, \<lparr>database = ''db1'', enabled_flag = False, table = [], utc = False\<rparr>)"
proof -
  let ?s = "\<lparr>database = [], enabled_flag = False, table = [], utc = False\<rparr>"
  let ?db = "\<lparr>arg_name = ''database'', arg_value = StringVal ''db1''\<rparr>"
  let ?bad = "\<lparr>arg_name = ''utc'', arg_value = StringVal ''yes''\<rparr>"
  let ?tb = "\<lparr>arg_name = ''table'', arg_value = StringVal ''t1''\<rparr>"
  let ?err = "wrongArgTypeError ''heartbeat'' ''utc'' (StringVal ''yes'')"
  have ok: "argError_spec ScrapeHeartbeat_Name heartbeatArgDefs ?db = None"
    by (simp add: argError_spec_heartbeat)
  have bad: "argError_spec ScrapeHeartbeat_Name heartbeatArgDefs ?bad = Some ?err"
    by (simp add: argError_spec_heartbeat)
  have pre: "\<forall>a\<in>set [?db]. argError_spec ScrapeHeartbeat_Name heartbeatArgDefs a = None"
    using ok by simp
  note th = ScrapeHeartbeat_Configure_first_failure
    [where args = "[?db]" and s = ?s and pre = "[?db]" and bad = ?bad and err = ?err
       and post = "[?tb]" and a = ?db]
  have one: "ScrapeHeartbeat_Configure ?s [?db] =
      (None, foldl (\<lambda>st a. snd (ScrapeHeartbeat_Configure st [a])) ?s [?db])"
    by (rule th [THEN conjunct1, THEN mp, OF pre])
  have stop: "ScrapeHeartbeat_Configure ?s ([?db] @ ?bad # [?tb]) =
      (Some ?err, foldl (\<lambda>st a. snd (ScrapeHeartbeat_Configure st [a])) ?s [?db])"
    by (rule th [THEN conjunct2, THEN conjunct1, THEN mp, OF conjI [OF pre bad], THEN conjunct1])
  from ok bad one stop show ?thesis
    by (simp add: heartbeatDatabase_def heartbeatTable_def heartbeatUtc_def)
qed

section \<open>Bootstrap registration\<close>

lemma ScrapeHeartbeat_Configure_defaults:
  "ScrapeHeartbeat_Configure s (defaultArgs heartbeatArgDefs) =
     (None, s\<lparr>database := ''heartbeat'', table := ''heartbeat'', utc := False\<rparr>)"
  by (simp add: defaultArgs_def heartbeatArgDefs_def heartbeatDatabase_def heartbeatTable_def
      heartbeatUtc_def)

lemma mustRegisterScraperWithDefaults_heartbeat_run:
  "reg (ScrapeHeartbeat_Name) = None \<Longrightarrow>
   mustRegisterScraperWithDefaults (\<lambda>p. ScrapeHeartbeat_Name) mk ScrapeHeartbeat_Configurable p b (h, reg) =
     Inr (h(p := (h p)\<lparr>database := ''heartbeat'', table := ''heartbeat'', utc := False\<rparr>),
          reg(ScrapeHeartbeat_Name \<mapsto> \<lparr>enabled = b, flags = mk p b, scraper = p\<rparr>))"
  by (simp add: mustRegisterScraperWithDefaults_def ScrapeHeartbeat_Configurable_def
      ScrapeHeartbeat_Configure_defaults registerScraper_def)

text \<open>
  C7. When \<open>s\<close> is configurable, \<open>mustRegisterScraperWithDefaults\<close> first calls its
  \<open>Configure\<close> with the defaults of its own argument definitions and then registers it:
  when \<open>Configure\<close> succeeds and the name is free, the result is the state \<open>Configure\<close>
  left and the registry with the new entry; when \<open>Configure\<close> fails the call panics with
  that error and nothing is registered. For the heartbeat scraper at address \<open>p\<close>,
  registered enabled into a registry without the name \<open>heartbeat\<close>, the call does not
  panic; afterwards \<open>IsScraperEnabled\<close> of \<open>heartbeat\<close> is true, \<open>LookupScraper\<close>
  returns \<open>p\<close>, and \<open>Args\<close> of the scraper is exactly database = heartbeat,
  table = heartbeat, utc = false.
\<close>

theorem mustRegisterScraperWithDefaults_heartbeat:
  "(asConfigurable s = Some cfg
      \<and> Configure cfg (defaultArgs (ArgDefinitions cfg)) h = (None, h')
      \<and> reg (Name s) = None \<longrightarrow>
      mustRegisterScraperWithDefaults Name mk asConfigurable s b (h, reg) =
        Inr (h', reg(Name s \<mapsto> \<lparr>enabled = b, flags = mk s b, scraper = s\<rparr>)))
   \<and> (asConfigurable s = Some cfg
      \<and> Configure cfg (defaultArgs (ArgDefinitions cfg)) h = (Some err, h') \<longrightarrow>
      mustRegisterScraperWithDefaults Name mk asConfigurable s b (h, reg) = Inl (Panic err))
   \<and> (reg0 ''heartbeat'' = None \<longrightarrow>
      (\<exists>h1 reg1.
         mustRegisterScraperWithDefaults (\<lambda>q. ScrapeHeartbeat_Name) mk0
           ScrapeHeartbeat_Configurable p True (h0, reg0) = Inr (h1, reg1)
         \<and> IsScraperEnabled reg1 ''heartbeat'' = True
         \<and> LookupScraper reg1 ''heartbeat'' = (Some p, True)
         \<and> ScrapeHeartbeat_Args (h1 p) =
             [\<lparr>arg_name = ''database'', arg_value = StringVal ''heartbeat''\<rparr>,
              \<lparr>arg_name = ''table'', arg_value = StringVal ''heartbeat''\<rparr>,
              \<lparr>arg_name = ''utc'', arg_value = BoolVal False\<rparr>]
         \<and> (\<forall>q. q \<noteq> p \<longrightarrow> h1 q = h0 q)))"
proof (intro conjI impI)
  assume "asConfigurable s = Some cfg
      \<and> Configure cfg (defaultArgs (ArgDefinitions cfg)) h = (None, h')
      \<and> reg (Name s) = None"
  then show "mustRegisterScraperWithDefaults Name mk asConfigurable s b (h, reg) =
        Inr (h', reg(Name s \<mapsto> \<lparr>enabled = b, flags = mk s b, scraper = s\<rparr>))"
    by (simp add: mustRegisterScraperWithDefaults_def registerScraper_def)
next
  assume "asConfigurable s = Some cfg
      \<and> Configure cfg (defaultArgs (ArgDefinitions cfg)) h = (Some err, h')"
  then show "mustRegisterScraperWithDefaults Name mk asConfigurable s b (h, reg) = Inl (Panic err)"
    by (simp add: mustRegisterScraperWithDefaults_def)
next
  assume "reg0 ''heartbeat'' = None"
  then have free: "reg0 ScrapeHeartbeat_Name = None"
    by (simp add: ScrapeHeartbeat_Name_def)
  let ?h1 = "h0(p := (h0 p)\<lparr>database := ''heartbeat'', table := ''heartbeat'', utc := False\<rparr>)"
  let ?reg1 = "reg0(ScrapeHeartbeat_Name \<mapsto> \<lparr>enabled = True, flags = mk0 p True, scraper = p\<rparr>)"
  have run: "mustRegisterScraperWithDefaults (\<lambda>q. ScrapeHeartbeat_Name) mk0
           ScrapeHeartbeat_Configurable p True (h0, reg0) = Inr (?h1, ?reg1)"
    using free by (rule mustRegisterScraperWithDefaults_heartbeat_run [where reg = reg0])
  have "IsScraperEnabled ?reg1 ''heartbeat'' = True"
    by (simp add: IsScraperEnabled_def ScrapeHeartbeat_Name_def)
  moreover have "LookupScraper ?reg1 ''heartbeat'' = (Some p, True)"
    by (simp add: LookupScraper_def ScrapeHeartbeat_Name_def)
  moreover have "ScrapeHeartbeat_Args (?h1 p) =
             [\<lparr>arg_name = ''database'', arg_value = StringVal ''heartbeat''\<rparr>,
              \<lparr>arg_name = ''table'', arg_value = StringVal ''heartbeat''\<rparr>,
              \<lparr>arg_name = ''utc'', arg_value = BoolVal False\<rparr>]"
    by (simp add: ScrapeHeartbeat_Args_def heartbeatDatabase_def heartbeatTable_def heartbeatUtc_def)
  moreover have "\<forall>q. q \<noteq> p \<longrightarrow> ?h1 q = h0 q"
    by simp
  ultimately show "\<exists>h1 reg1.
         mustRegisterScraperWithDefaults (\<lambda>q. ScrapeHeartbeat_Name) mk0
           ScrapeHeartbeat_Configurable p True (h0, reg0) = Inr (h1, reg1)
         \<and> IsScraperEnabled reg1 ''heartbeat'' = True
         \<and> LookupScraper reg1 ''heartbeat'' = (Some p, True)
         \<and> ScrapeHeartbeat_Args (h1 p) =
             [\<lparr>arg_name = ''database'', arg_value = StringVal ''heartbeat''\<rparr>,
              \<lparr>arg_name = ''table'', arg_value = StringVal ''heartbeat''\<rparr>,
              \<lparr>arg_name = ''utc'', arg_value = BoolVal False\<rparr>]
         \<and> (\<forall>q. q \<noteq> p \<longrightarrow> h1 q = h0 q)"
    using run by blast
qed

theorem mustRegisterScraperWithDefaults_heartbeat_witness:
  "(Map.empty :: (string, addr) scraperRegistry) ''heartbeat'' = None
   \<and> (\<exists>h1 reg1.
         mustRegisterScraperWithDefaults (\<lambda>q. ScrapeHeartbeat_Name) (\<lambda>q b. Map.empty)
           ScrapeHeartbeat_Configurable 0 True
           (\<lambda>q. \<lparr>database = [], enabled_flag = False, table = [], utc = False\<rparr>,
            (Map.empty :: (string, addr) scraperRegistry)) = Inr (h1, reg1)
         \<and> IsScraperEnabled reg1 ''heartbeat'' = True
         \<and> LookupScraper reg1 ''heartbeat'' = (Some 0, True)
         \<and> ScrapeHeartbeat_Args (h1 0) =
             [\<lparr>arg_name = ''database'', arg_value = StringVal ''heartbeat''\<rparr>,
              \<lparr>arg_name = ''table'', arg_value = StringVal ''heartbeat''\<rparr>,
              \<lparr>arg_name = ''utc'', arg_value = BoolVal False\<rparr>])"
proof -
  have free: "(Map.empty :: (string, addr) scraperRegistry) ''heartbeat'' = None"
    by simp
  note th = mustRegisterScraperWithDefaults_heartbeat
    [where ?reg0.0 = "Map.empty :: (string, addr) scraperRegistry" and p = 0
       and ?mk0.0 = "\<lambda>q b. Map.empty"
       and ?h0.0 = "\<lambda>q. \<lparr>database = [], enabled_flag = False, table = [], utc = False\<rparr>",
     THEN conjunct2, THEN conjunct2, THEN mp, OF free]
  from free th show ?thesis by blast
qed

section \<open>Heartbeat: Scrape\<close>

lemma heartbeatRowsLoop_parsed_row:
  "rowParses ParseFloat row \<Longrightarrow>
   heartbeatRowsLoop ParseFloat (row # rows) ch =
     heartbeatRowsLoop ParseFloat rows (ch @ rowMetrics ParseFloat row)"
  by (auto simp: rowParses_def rowMetrics_def MustNewConstMetric_def
      split: sum.splits prod.splits)

lemma heartbeatRowsLoop_failed_row:
  "\<not> rowParses ParseFloat row \<Longrightarrow>
   \<exists>err. heartbeatRowsLoop ParseFloat (row # rows) ch = (Some err, ch)"
  by (auto simp: rowParses_def split: sum.splits prod.splits)

lemma rowMetrics_parsed:
  "rowParses ParseFloat row \<Longrightarrow> length (rowMetrics ParseFloat row) = 2"
  by (auto simp: rowParses_def rowMetrics_def split: sum.splits prod.splits)

lemma rowMetrics_failed:
  "\<not> rowParses ParseFloat row \<Longrightarrow> rowMetrics ParseFloat row = []"
  by (auto simp: rowParses_def rowMetrics_def split: sum.splits prod.splits)

lemma heartbeatRowsLoop_prefix:
  "\<forall>r\<in>set pre. rowParses ParseFloat r \<Longrightarrow>
   heartbeatRowsLoop ParseFloat (pre @ rest) ch =
     heartbeatRowsLoop ParseFloat rest (ch @ concat (map (rowMetrics ParseFloat) pre))"
proof (induction pre arbitrary: ch)
  case Nil
  then show ?case by simp
next
  case (Cons r pre)
  then have r: "rowParses ParseFloat r" and pre: "\<forall>r\<in>set pre. rowParses ParseFloat r"
    by simp_all
  have "heartbeatRowsLoop ParseFloat ((r # pre) @ rest) ch =
      heartbeatRowsLoop ParseFloat (pre @ rest) (ch @ rowMetrics ParseFloat r)"
    using heartbeatRowsLoop_parsed_row [OF r, of "pre @ rest" ch] by simp
  also have "\<dots> = heartbeatRowsLoop ParseFloat rest
      ((ch @ rowMetrics ParseFloat r) @ concat (map (rowMetrics ParseFloat) pre))"
    by (rule Cons.IH [OF pre])
  finally show ?case by (simp del: heartbeatRowsLoop.simps)
qed

lemma heartbeatRowsLoop_result:
  "heartbeatRowsLoop ParseFloat rows ch = (e, out) \<Longrightarrow>
   out = ch @ concat (map (rowMetrics ParseFloat) (takeWhile (rowParses ParseFloat) rows))
   \<and> (e = None \<longleftrightarrow> (\<forall>r\<in>set rows. rowParses ParseFloat r))"
proof (induction rows arbitrary: ch)
  case Nil
  then show ?case by simp
next
  case (Cons r rows)
  show ?case
  proof (cases "rowParses ParseFloat r")
    case True
    from Cons.prems heartbeatRowsLoop_parsed_row [OF True, of rows ch]
    have "heartbeatRowsLoop ParseFloat rows (ch @ rowMetrics ParseFloat r) = (e, out)"
      by simp
    from Cons.IH [OF this] True show ?thesis by simp
  next
    case False
    from heartbeatRowsLoop_failed_row [OF False, of rows ch] Cons.prems
    obtain err where "e = Some err" "out = ch" by auto
    with False show ?thesis by auto
  qed
qed

lemma takeWhile_stops_before:
  "i < length xs \<Longrightarrow> \<not> P (xs ! i) \<Longrightarrow> length (takeWhile P xs) \<le> i"
proof (rule ccontr)
  assume i: "i < length xs" and n: "\<not> P (xs ! i)" and "\<not> length (takeWhile P xs) \<le> i"
  then have lt: "i < length (takeWhile P xs)" by simp
  then have "takeWhile P xs ! i \<in> set (takeWhile P xs)" by (rule nth_mem)
  then have "P (takeWhile P xs ! i)" by (rule set_takeWhileD [THEN conjunct2])
  moreover from lt have "takeWhile P xs ! i = xs ! i" by (rule takeWhile_nth)
  ultimately show False using n by simp
qed

text \<open>
  C8. When the query succeeds and the loop reaches a row (every row before it scanned and
  parsed) whose two timestamp strings parse, \<open>Scrape\<close> sends exactly two metrics for that
  row, after the two of each earlier row and before those of later rows: the
  current-timestamp gauge with the parsed current timestamp, then the stored-timestamp
  gauge with the parsed stored timestamp, each labelled \<open>server_id\<close> with the decimal
  rendering of the row's server id. The call returns no error exactly when the later rows
  scan and parse as well.
\<close>

theorem ScrapeHeartbeat_Scrape_row_metrics:
  assumes q: "db (heartbeatQuery (nowExpr (utc s)) (database s) (table s)) =
      Inr (pre @ Inr (ts, now, serverId) # post)"
    and pre: "\<forall>r\<in>set pre. rowParses ParseFloat r"
    and ts: "ParseFloat ts 64 = Inr tsVal"
    and now: "ParseFloat now 64 = Inr nowVal"
  shows "snd (ScrapeHeartbeat_Scrape ParseFloat s db ch) =
      ch @ concat (map (rowMetrics ParseFloat) pre)
         @ [\<lparr>desc = HeartbeatNowDesc, valueType = GaugeValue, metric_value = nowVal,
              labelPairs = [(''server_id'', Itoa serverId)]\<rparr>,
            \<lparr>desc = HeartbeatStoredDesc, valueType = GaugeValue, metric_value = tsVal,
              labelPairs = [(''server_id'', Itoa serverId)]\<rparr>]
         @ concat (map (rowMetrics ParseFloat) (takeWhile (rowParses ParseFloat) post))
     \<and> length (concat (map (rowMetrics ParseFloat) pre)) = 2 * length pre
     \<and> (fst (ScrapeHeartbeat_Scrape ParseFloat s db ch) = None
          \<longleftrightarrow> (\<forall>r\<in>set post. rowParses ParseFloat r))"
proof -
  let ?row = "Inr (ts, now, serverId) :: error + heartbeatRow"
  let ?two = "[\<lparr>desc = HeartbeatNowDesc, valueType = GaugeValue, metric_value = nowVal,
              labelPairs = [(''server_id'', Itoa serverId)]\<rparr>,
            \<lparr>desc = HeartbeatStoredDesc, valueType = GaugeValue, metric_value = tsVal,
              labelPairs = [(''server_id'', Itoa serverId)]\<rparr>]"
  have row: "rowParses ParseFloat ?row"
    using ts now by (simp add: rowParses_def)
  have two: "rowMetrics ParseFloat ?row = ?two"
    using ts now by (simp add: rowMetrics_def)
  have all: "\<forall>r\<in>set (pre @ [?row]). rowParses ParseFloat r"
    using pre row by simp
  have "ScrapeHeartbeat_Scrape ParseFloat s db ch =
      heartbeatRowsLoop ParseFloat ((pre @ [?row]) @ post) ch"
    using q by (simp add: ScrapeHeartbeat_Scrape_def)
  also have "\<dots> = heartbeatRowsLoop ParseFloat post
      (ch @ concat (map (rowMetrics ParseFloat) (pre @ [?row])))"
    by (rule heartbeatRowsLoop_prefix [OF all])
  finally have run: "ScrapeHeartbeat_Scrape ParseFloat s db ch =
      heartbeatRowsLoop ParseFloat post (ch @ concat (map (rowMetrics ParseFloat) pre) @ ?two)"
    using two by simp
  obtain e out where eo: "heartbeatRowsLoop ParseFloat post
      (ch @ concat (map (rowMetrics ParseFloat) pre) @ ?two) = (e, out)"
    by (cases "heartbeatRowsLoop ParseFloat post (ch @ concat (map (rowMetrics ParseFloat) pre) @ ?two)")
  from heartbeatRowsLoop_result [OF eo]
  have out: "out = (ch @ concat (map (rowMetrics ParseFloat) pre) @ ?two)
        @ concat (map (rowMetrics ParseFloat) (takeWhile (rowParses ParseFloat) post))"
    and e: "e = None \<longleftrightarrow> (\<forall>r\<in>set post. rowParses ParseFloat r)"
    by simp_all
  have len: "length (concat (map (rowMetrics ParseFloat) pre)) = 2 * length pre"
    using pre by (induction pre) (simp_all add: rowMetrics_parsed)
  from run eo out e len show ?thesis by simp
qed

theorem ScrapeHeartbeat_Scrape_row_metrics_witness:
  "ScrapeHeartbeat_Scrape exampleParseFloat
      \<lparr>database = ''heartbeat'', enabled_flag = True, table = ''heartbeat'', utc = False\<rparr>
      (\<lambda>query. Inr [Inr (''100.5'', ''200.75'', 7)]) [] =
     (None,
      [\<lparr>desc = HeartbeatNowDesc, valueType = GaugeValue, metric_value = 200.75,
         labelPairs = [(''server_id'', ''7'')]\<rparr>,
       \<lparr>desc = HeartbeatStoredDesc, valueType = GaugeValue, metric_value = 100.5,
         labelPairs = [(''server_id'', ''7'')]\<rparr>])"
proof -
  let ?s = "\<lparr>database = ''heartbeat'', enabled_flag = True, table = ''heartbeat'', utc = False\<rparr>"
  let ?db = "\<lambda>query :: string. Inr [Inr (''100.5'', ''200.75'', 7)] :: error + Rows"
  have q: "?db (heartbeatQuery (nowExpr (utc ?s)) (database ?s) (table ?s)) =
      Inr ([] @ Inr (''100.5'', ''200.75'', 7) # [])"
    by simp
  have pre: "\<forall>r\<in>set []. rowParses exampleParseFloat r"
    by simp
  have ts: "exampleParseFloat ''100.5'' 64 = Inr 100.5"
    by (simp add: exampleParseFloat_def)
  have now: "exampleParseFloat ''200.75'' 64 = Inr 200.75"
    by (simp add: exampleParseFloat_def)
  have seven: "Itoa 7 = ''7''"
    by (simp add: Itoa_def natDigits.simps)
  note th = ScrapeHeartbeat_Scrape_row_metrics [of ?db ?s "[]" "''100.5''" "''200.75''" 7 "[]"
      exampleParseFloat "100.5" "200.75" "[]", OF q pre ts now]
  from th seven show ?thesis
    by (simp add: prod_eq_iff)
qed

text \<open>
  C9. When the query succeeds and some row of the result scans but has a stored or
  current timestamp string that does not parse, \<open>Scrape\<close> returns an error. What it has
  sent is the two metrics of each row before the first row that fails, and that row is
  the given one or an earlier one: nothing is sent for the given row (neither of its two
  metrics), nor for any row after the failure, and what earlier rows delivered stays
  delivered, two metrics for each.
\<close>

theorem ScrapeHeartbeat_Scrape_parse_failure:
  assumes q: "db (heartbeatQuery (nowExpr (utc s)) (database s) (table s)) = Inr rows"
    and i: "i < length rows"
    and row: "rows ! i = Inr (ts, now, serverId)"
    and bad: "isl (ParseFloat ts 64) \<or> isl (ParseFloat now 64)"
  shows "fst (ScrapeHeartbeat_Scrape ParseFloat s db ch) \<noteq> None
     \<and> (\<exists>k. k \<le> i
           \<and> snd (ScrapeHeartbeat_Scrape ParseFloat s db ch) =
               ch @ concat (map (rowMetrics ParseFloat) (take k rows))
           \<and> (\<forall>r\<in>set (take k rows). rowParses ParseFloat r \<and> length (rowMetrics ParseFloat r) = 2)
           \<and> length (snd (ScrapeHeartbeat_Scrape ParseFloat s db ch)) = length ch + 2 * k)
     \<and> (\<exists>err. heartbeatRowsLoop ParseFloat [rows ! i] ch = (Some err, ch)
           \<and> (ParseFloat ts 64 = Inl err \<or> ParseFloat now 64 = Inl err))"
proof -
  let ?P = "rowParses ParseFloat"
  let ?k = "length (takeWhile ?P rows)"
  have fails: "\<not> ?P (rows ! i)"
    using row bad by (simp add: rowParses_def)
  have k: "?k \<le> i"
    using i fails by (rule takeWhile_stops_before)
  have tk: "takeWhile ?P rows = take ?k rows"
    by (rule takeWhile_eq_take)
  have run: "ScrapeHeartbeat_Scrape ParseFloat s db ch = heartbeatRowsLoop ParseFloat rows ch"
    using q by (simp add: ScrapeHeartbeat_Scrape_def)
  obtain e out where eo: "heartbeatRowsLoop ParseFloat rows ch = (e, out)"
    by (cases "heartbeatRowsLoop ParseFloat rows ch")
  from heartbeatRowsLoop_result [OF eo]
  have out: "out = ch @ concat (map (rowMetrics ParseFloat) (takeWhile ?P rows))"
    and e: "e = None \<longleftrightarrow> (\<forall>r\<in>set rows. ?P r)"
    by simp_all
  from i fails have "\<not> (\<forall>r\<in>set rows. ?P r)"
    using nth_mem by blast
  with e have err: "e \<noteq> None" by simp
  have good: "\<forall>r\<in>set (take ?k rows). ?P r \<and> length (rowMetrics ParseFloat r) = 2"
  proof
    fix r assume "r \<in> set (take ?k rows)"
    then have "r \<in> set (takeWhile ?P rows)" using tk by simp
    then have "?P r" by (rule set_takeWhileD [THEN conjunct2])
    then show "?P r \<and> length (rowMetrics ParseFloat r) = 2"
      by (simp add: rowMetrics_parsed)
  qed
  have len: "length (concat (map (rowMetrics ParseFloat) xs)) = 2 * length xs"
    if "\<forall>r\<in>set xs. length (rowMetrics ParseFloat r) = 2" for xs
    using that by (induction xs) simp_all
  have "length (concat (map (rowMetrics ParseFloat) (take ?k rows))) = 2 * length (take ?k rows)"
    using good by (intro len) simp
  moreover have "length (take ?k rows) = ?k"
    using k i by simp
  ultimately have cnt: "length out = length ch + 2 * ?k"
    using out tk by simp
  have part2: "\<exists>k. k \<le> i
           \<and> snd (ScrapeHeartbeat_Scrape ParseFloat s db ch) =
               ch @ concat (map (rowMetrics ParseFloat) (take k rows))
           \<and> (\<forall>r\<in>set (take k rows). rowParses ParseFloat r \<and> length (rowMetrics ParseFloat r) = 2)
           \<and> length (snd (ScrapeHeartbeat_Scrape ParseFloat s db ch)) = length ch + 2 * k"
  proof (intro exI [of _ ?k] conjI)
    show "?k \<le> i" by (rule k)
    show "snd (ScrapeHeartbeat_Scrape ParseFloat s db ch) =
        ch @ concat (map (rowMetrics ParseFloat) (take ?k rows))"
      using run eo out tk by simp
    show "\<forall>r\<in>set (take ?k rows). rowParses ParseFloat r \<and> length (rowMetrics ParseFloat r) = 2"
      by (rule good)
    show "length (snd (ScrapeHeartbeat_Scrape ParseFloat s db ch)) = length ch + 2 * ?k"
      using run eo cnt by simp
  qed
  have part3: "\<exists>err. heartbeatRowsLoop ParseFloat [rows ! i] ch = (Some err, ch)
           \<and> (ParseFloat ts 64 = Inl err \<or> ParseFloat now 64 = Inl err)"
  proof (cases "ParseFloat ts 64")
    case (Inl err)
    with row show ?thesis by simp
  next
    case (Inr tsVal)
    with bad obtain err where "ParseFloat now 64 = Inl err"
      by (cases "ParseFloat now 64") simp_all
    with row Inr show ?thesis by simp
  qed
  from run eo err part2 part3 show ?thesis by simp
qed

theorem ScrapeHeartbeat_Scrape_parse_failure_witness:
  "isl (exampleParseFloat ''not-a-number'' 64)
   \<and> ScrapeHeartbeat_Scrape exampleParseFloat
      \<lparr>database = ''heartbeat'', enabled_flag = True, table = ''heartbeat'', utc = False\<rparr>
      (\<lambda>query. Inr [Inr (''100.5'', ''200.75'', 7), Inr (''not-a-number'', ''200.75'', 8)]) [] =
     (Some (LibraryError ''strconv.ParseFloat: parsing not-a-number: invalid syntax''),
      [\<lparr>desc = HeartbeatNowDesc, valueType = GaugeValue, metric_value = 200.75,
         labelPairs = [(''server_id'', ''7'')]\<rparr>,
       \<lparr>desc = HeartbeatStoredDesc, valueType = GaugeValue, metric_value = 100.5,
         labelPairs = [(''server_id'', ''7'')]\<rparr>])"
proof -
  let ?s = "\<lparr>database = ''heartbeat'', enabled_flag = True, table = ''heartbeat'', utc = False\<rparr>"
  let ?rows = "[Inr (''100.5'', ''200.75'', 7), Inr (''not-a-number'', ''200.75'', 8)] :: Rows"
  let ?db = "\<lambda>query :: string. Inr ?rows :: error + Rows"
  have q: "?db (heartbeatQuery (nowExpr (utc ?s)) (database ?s) (table ?s)) = Inr ?rows"
    by simp
  have i: "1 < length ?rows"
    by simp
  have row: "?rows ! 1 = Inr (''not-a-number'', ''200.75'', 8)"
    by simp
  have nan: "isl (exampleParseFloat ''not-a-number'' 64)"
    by (simp add: exampleParseFloat_def)
  then have bad: "isl (exampleParseFloat ''not-a-number'' 64) \<or> isl (exampleParseFloat ''200.75'' 64)"
    by simp
  have seven: "Itoa 7 = ''7''"
    by (simp add: Itoa_def natDigits.simps)
  note th = ScrapeHeartbeat_Scrape_parse_failure [of ?db ?s ?rows 1 "''not-a-number''" "''200.75''" 8
      exampleParseFloat "[]", OF q i row bad]
  have direct: "ScrapeHeartbeat_Scrape exampleParseFloat ?s ?db [] =
     (Some (LibraryError ''strconv.ParseFloat: parsing not-a-number: invalid syntax''),
      [\<lparr>desc = HeartbeatNowDesc, valueType = GaugeValue, metric_value = 200.75,
         labelPairs = [(''server_id'', ''7'')]\<rparr>,
       \<lparr>desc = HeartbeatStoredDesc, valueType = GaugeValue, metric_value = 100.5,
         labelPairs = [(''server_id'', ''7'')]\<rparr>])"
    using th
    by (simp add: ScrapeHeartbeat_Scrape_def exampleParseFloat_def MustNewConstMetric_def seven
        del: heartbeatRowsLoop.simps)
       (simp add: exampleParseFloat_def MustNewConstMetric_def seven)
  from nan direct show ?thesis by simp
qed

end
